theory Spec2Isabelle
  imports Complex_Main
begin

section \<open>Shared vocabulary\<close>

text \<open>
  The two scripts of the repository are embedded as pure HOL functions. A Python
  exception is a value of \<open>error\<close>; a function that can raise returns \<open>error + 'a\<close>
  with \<open>Inl\<close> for the exception.
\<close>

datatype error = IndexError | ValueError

section \<open>cellpose\_repro/train\_on\_splits.py\<close>

subsection \<open>Library functions the converter calls\<close>

text \<open>
  \<open>str(j)\<close> for a non-negative Python integer: its decimal digits.
\<close>

definition digit_char :: "nat \<Rightarrow> char" where
  "digit_char d = ''0123456789'' ! d"

fun str_nat :: "nat \<Rightarrow> string" where
  "str_nat n =
     (if n < 10 then [digit_char n]
      else str_nat (n div 10) @ [digit_char (n mod 10)])"

declare str_nat.simps [simp del]

text \<open>
  \<open>pathlib.Path(p).stem\<close> on a POSIX path. \<open>Path.name\<close> is the last component of
  the path once empty and \<open>.\<close> components are dropped (the empty string when there is
  none); \<open>stem\<close> is the name without its last suffix (Python up to 3.13):
  \<^verbatim>\<open>
  i = name.rfind('.')
  if 0 < i < len(name) - 1: return name[:i]
  else: return name
  \<close>
\<close>

fun split_sep :: "char \<Rightarrow> string \<Rightarrow> string list" where
  "split_sep c [] = [[]]"
| "split_sep c (x # xs) =
     (if x = c then [] # split_sep c xs
      else (case split_sep c xs of
              [] \<Rightarrow> [[x]]
            | w # ws \<Rightarrow> (x # w) # ws))"

definition path_name :: "string \<Rightarrow> string" where
  "path_name p =
     (case filter (\<lambda>part. part \<noteq> [] \<and> part \<noteq> ''.'') (split_sep CHR ''/'' p) of
        [] \<Rightarrow> []
      | q # qs \<Rightarrow> last (q # qs))"

fun rfind :: "char \<Rightarrow> string \<Rightarrow> nat option" where
  "rfind c [] = None"
| "rfind c (x # xs) =
     (case rfind c xs of
        Some i \<Rightarrow> Some (Suc i)
      | None \<Rightarrow> (if x = c then Some 0 else None))"

definition path_stem :: "string \<Rightarrow> string" where
  "path_stem p =
     (let name = path_name p in
      case rfind CHR ''.'' name of
        None \<Rightarrow> name
      | Some i \<Rightarrow> (if 0 < i \<and> i + 1 < length name then take i name else name))"

subsection \<open>convert\_2d\<close>

text \<open>
  A 2-D array is a list of rows, a volume is the list of its slices along axis 0.
  \<open>slice_.astype(dtype)\<close> casts element-wise; the cast itself is the parameter
  \<open>dtype\<close>.
\<close>

type_synonym 'a slice2d = "'a list list"
type_synonym 'a volume = "'a slice2d list"

definition astype :: "('a \<Rightarrow> 'b) \<Rightarrow> 'a slice2d \<Rightarrow> 'b slice2d" where
  "astype dtype slice = map (map dtype) slice"

text \<open>The f-string \<^verbatim>\<open>f"{pt.Path(images_names[i]).stem}_{j}.tif"\<close>.\<close>

definition slice_name :: "string \<Rightarrow> nat \<Rightarrow> string" where
  "slice_name src j = path_stem src @ ''_'' @ str_nat j @ ''.tif''"

text \<open>
  The inner loop \<^verbatim>\<open>for j, slice_ in enumerate(image)\<close> of volume number \<open>i\<close>. The
  accumulator holds \<open>images_2d\<close> and \<open>images_names_2d\<close> (\<open>None\<close> in Python is
  \<open>None\<close> here). \<^verbatim>\<open>images_names[i]\<close> raises IndexError when \<open>i\<close> is out of range;
  it is evaluated once per slice, so a volume without slices never reads it.
\<close>

fun convert_slices ::
  "('a \<Rightarrow> 'b) \<Rightarrow> string list option \<Rightarrow> nat \<Rightarrow> 'a slice2d list \<Rightarrow> nat \<Rightarrow>
   'b slice2d list \<times> string list option \<Rightarrow> error + ('b slice2d list \<times> string list option)"
where
  "convert_slices dtype images_names i [] j acc = Inr acc"
| "convert_slices dtype images_names i (slice # rest) j (images_2d, images_names_2d) =
     (let images_2d' = images_2d @ [astype dtype slice] in
      case images_names of
        None \<Rightarrow> convert_slices dtype images_names i rest (Suc j) (images_2d', images_names_2d)
      | Some names \<Rightarrow>
          (if i < length names
           then convert_slices dtype images_names i rest (Suc j)
                  (images_2d', map_option (\<lambda>l. l @ [slice_name (names ! i) j]) images_names_2d)
           else Inl IndexError))"

text \<open>The outer loop \<^verbatim>\<open>for i, image in enumerate(images_array)\<close>.\<close>

fun convert_volumes ::
  "('a \<Rightarrow> 'b) \<Rightarrow> string list option \<Rightarrow> 'a volume list \<Rightarrow> nat \<Rightarrow>
   'b slice2d list \<times> string list option \<Rightarrow> error + ('b slice2d list \<times> string list option)"
where
  "convert_volumes dtype images_names [] i acc = Inr acc"
| "convert_volumes dtype images_names (img # rest) i acc =
     (case convert_slices dtype images_names i img 0 acc of
        Inl e \<Rightarrow> Inl e
      | Inr acc' \<Rightarrow> convert_volumes dtype images_names rest (Suc i) acc')"

definition convert_2d ::
  "('a \<Rightarrow> 'b) \<Rightarrow> 'a volume list \<Rightarrow> string list option \<Rightarrow>
   error + ('b slice2d list \<times> string list option)"
where
  "convert_2d dtype images_array images_names =
     convert_volumes dtype images_names images_array 0
       ([], (case images_names of None \<Rightarrow> None | Some _ \<Rightarrow> Some []))"

subsection \<open>The train/validation split of the script body\<close>








text \<open>
  For stating what the converter returns: the names the loops append for the volumes
  \<open>vs\<close>, the first of them being volume number \<open>i\<close>.
\<close>

definition names_of :: "string list \<Rightarrow> nat \<Rightarrow> 'a list list \<Rightarrow> string list" where
  "names_of ns i vs =
     concat (map (\<lambda>(k, v). map (slice_name (ns ! k)) [0..<length v]) (enumerate i vs))"


text \<open>
  The origin of every slice the loops visit, in the order they visit them: the pair of
  the number of its volume (counted from \<open>i\<close>) and its index in that volume.
\<close>

fun slice_origins :: "nat \<Rightarrow> 'a list list \<Rightarrow> (nat \<times> nat) list" where
  "slice_origins i [] = []"
| "slice_origins i (v # vs) = map (Pair i) [0..<length v] @ slice_origins (Suc i) vs"

section \<open>plots.py\<close>

subsection \<open>Numpy functions of the sweep\<close>

text \<open>
  \<open>np.argmax\<close> of a sequence: the index of the first occurrence of the largest
  element, and ValueError for an empty sequence. The scores are taken from a linear
  order (numbers; a NaN is not a score).
\<close>

fun argmax_from :: "'s::linorder list \<Rightarrow> nat \<Rightarrow> nat \<Rightarrow> 's \<Rightarrow> nat" where
  "argmax_from [] i best best_value = best"
| "argmax_from (x # xs) i best best_value =
     (if best_value < x then argmax_from xs (Suc i) i x
      else argmax_from xs (Suc i) best best_value)"

definition np_argmax :: "'s::linorder list \<Rightarrow> error + nat" where
  "np_argmax xs = (case xs of [] \<Rightarrow> Inl ValueError | x # rest \<Rightarrow> Inr (argmax_from rest 1 0 x))"

text \<open>\<open>np.max\<close>: the largest element, ValueError for an empty sequence.\<close>

definition np_max :: "'s::linorder list \<Rightarrow> error + 's" where
  "np_max xs = (case xs of [] \<Rightarrow> Inl ValueError | x # rest \<Rightarrow> Inr (fold max rest x))"

text \<open>\<open>xs[k]\<close> for an index \<open>k \<ge> 0\<close>.\<close>

definition getitem :: "'a list \<Rightarrow> nat \<Rightarrow> error + 'a" where
  "getitem xs k = (if k < length xs then Inr (xs ! k) else Inl IndexError)"

text \<open>
  \<open>np.where(image > threshold, 1, 0)\<close>. A map is the sequence of its elements (the
  operation is element-wise, whatever the shape), a mask has the elements 0 and 1.
\<close>

type_synonym mask = "int list"

definition binarize :: "rat list \<Rightarrow> rat \<Rightarrow> mask" where
  "binarize img threshold = map (\<lambda>v. if threshold < v then 1 else 0) img"

text \<open>\<open>np.arange(0, 1, 0.025)\<close>: the forty thresholds 0, 0.025, ..., 0.975.\<close>

definition default_threshold_range :: "rat list" where
  "default_threshold_range = map (\<lambda>k. of_nat k * (25 / 1000)) [0..<40]"

subsection \<open>The metric functions imported from utils\<close>

text \<open>
  \<open>dice_coeff\<close>, \<open>intersection_over_union\<close>, \<open>precision\<close> and \<open>recall\<close> are imported
  from \<open>utils\<close>; the sweep takes them as the fields of this record. Each maps the
  ground truth and a prediction mask to a score.
\<close>

record 's utils =
  dice_coeff :: "mask \<Rightarrow> mask \<Rightarrow> 's"
  intersection_over_union :: "mask \<Rightarrow> mask \<Rightarrow> 's"
  precision :: "mask \<Rightarrow> mask \<Rightarrow> 's"
  recall :: "mask \<Rightarrow> mask \<Rightarrow> 's"

text \<open>
  Modelled from the spec: \<open>utils.py\<close>, which defines the four metric functions, is
  missing from the sources; the definitions below follow the spec's glossary. A binary
  mask stands for the set of its elements equal to 1: \<open>mask_size\<close> is the size of that set and \<open>overlap\<close> the size of the
  intersection of two masks. Where the denominator of a formula is zero the formula
  has no value: the result is \<open>None\<close>.
\<close>

definition mask_size :: "mask \<Rightarrow> nat" where
  "mask_size a = length (filter (\<lambda>v. v = 1) a)"

definition overlap :: "mask \<Rightarrow> mask \<Rightarrow> nat" where
  "overlap a b = length (filter (\<lambda>(x, y). x = 1 \<and> y = 1) (zip a b))"

definition ratio :: "nat \<Rightarrow> nat \<Rightarrow> rat option" where
  "ratio n d = (if d = 0 then None else Some (of_nat n / of_nat d))"

text \<open>
  Modelled from the spec: \<open>utils.dice_coeff\<close> is missing. Glossary: "Dice coefficient:
  2 x overlap / (|A|+|B|) between two binary masks".
\<close>

definition spec_dice_coeff :: "mask \<Rightarrow> mask \<Rightarrow> rat option" where
  "spec_dice_coeff a b = ratio (2 * overlap a b) (mask_size a + mask_size b)"

text \<open>
  Modelled from the spec: \<open>utils.intersection_over_union\<close> is missing. Glossary: "IoU
  (Intersection over Union): |A n B| / |A u B| between two binary masks"; the size of
  the union is \<open>|A| + |B| - |A n B|\<close>.
\<close>

definition spec_intersection_over_union :: "mask \<Rightarrow> mask \<Rightarrow> rat option" where
  "spec_intersection_over_union a b =
     ratio (overlap a b) (mask_size a + mask_size b - overlap a b)"

text \<open>
  Modelled from the spec: \<open>utils.precision\<close> is missing. The spec names precision as a
  per-pixel classification metric without a formula; it is taken in its usual sense,
  true positives over predicted positives.
\<close>

definition spec_precision :: "mask \<Rightarrow> mask \<Rightarrow> rat option" where
  "spec_precision y_true y_pred = ratio (overlap y_true y_pred) (mask_size y_pred)"

text \<open>
  Modelled from the spec: \<open>utils.recall\<close> is missing. The spec names recall as a
  per-pixel classification metric without a formula; it is taken in its usual sense,
  true positives over actual positives.
\<close>

definition spec_recall :: "mask \<Rightarrow> mask \<Rightarrow> rat option" where
  "spec_recall y_true y_pred = ratio (overlap y_true y_pred) (mask_size y_true)"

text \<open>Modelled from the spec: the four functions above as the module \<open>utils\<close>.\<close>

definition spec_utils :: "rat option utils" where
  "spec_utils =
     \<lparr>dice_coeff = spec_dice_coeff,
      intersection_over_union = spec_intersection_over_union,
      precision = spec_precision,
      recall = spec_recall\<rparr>"

subsection \<open>plot\_model\_performance\_semantic\<close>

text \<open>
  What the function does to the outside: the pyplot calls it makes, in order, and the
  lines it prints. The text drawn and the lines printed are kept as the numbers they
  show (the two-decimal formatting is not modelled).
\<close>

datatype 's plt_call =
    Figure
  | Plot string "rat list" "'s list"
  | AxVLine rat
  | Text rat rat rat
  | XLabel string
  | YLabel string
  | Title string
  | Legend
  | Show

datatype 's print_line = MaxDice 's rat | MaxIoU 's rat

record 's outside =
  drawn :: "'s plt_call list"
  printed :: "'s print_line list"

text \<open>The loop \<^verbatim>\<open>for threshold in threshold_range\<close> with its four score lists.\<close>

fun sweep_loop ::
  "'s utils \<Rightarrow> rat list \<Rightarrow> mask \<Rightarrow> rat list \<Rightarrow>
   's list \<times> 's list \<times> 's list \<times> 's list \<Rightarrow> 's list \<times> 's list \<times> 's list \<times> 's list"
where
  "sweep_loop u img gt [] scores = scores"
| "sweep_loop u img gt (threshold # rest)
     (dice_scores, iou_scores, precision_scores, recall_scores) =
     (let pred = binarize img threshold in
      sweep_loop u img gt rest
        (dice_scores @ [dice_coeff u gt pred],
         iou_scores @ [intersection_over_union u gt pred],
         precision_scores @ [precision u gt pred],
         recall_scores @ [recall u gt pred]))"

text \<open>
  One printed line: \<open>np.max(scores)\<close> and \<open>threshold_range[np.argmax(scores)]\<close>.
\<close>

definition max_at :: "'s::linorder list \<Rightarrow> rat list \<Rightarrow> error + ('s \<times> rat)" where
  "max_at scores threshold_range =
     (case np_max scores of
        Inl e \<Rightarrow> Inl e
      | Inr m \<Rightarrow>
          (case np_argmax scores of
             Inl e \<Rightarrow> Inl e
           | Inr k \<Rightarrow>
               (case getitem threshold_range k of
                  Inl e \<Rightarrow> Inl e
                | Inr t \<Rightarrow> Inr (m, t))))"

text \<open>The \<^verbatim>\<open>if print_max:\<close> block.\<close>

definition print_maxima ::
  "'s::linorder list \<Rightarrow> 's list \<Rightarrow> rat list \<Rightarrow> 's outside \<Rightarrow> error + 's outside" where
  "print_maxima dice_scores iou_scores threshold_range out =
     (case max_at dice_scores threshold_range of
        Inl e \<Rightarrow> Inl e
      | Inr (dm, dt) \<Rightarrow>
          (case max_at iou_scores threshold_range of
             Inl e \<Rightarrow> Inl e
           | Inr (im, it) \<Rightarrow>
               Inr (out\<lparr>printed := printed out @ [MaxDice dm dt, MaxIoU im it]\<rparr>)))"

text \<open>
  The function: the result is the exception raised or the four score lists returned,
  together with the output made up to that point.
\<close>

definition plot_model_performance_semantic ::
  "('s::linorder) utils \<Rightarrow> rat list \<Rightarrow> mask \<Rightarrow> string \<Rightarrow> rat list option \<Rightarrow> bool \<Rightarrow>
   's outside \<Rightarrow> (error + 's list \<times> 's list \<times> 's list \<times> 's list) \<times> 's outside"
where
  "plot_model_performance_semantic u img gt name threshold_range_arg print_max out =
     (let threshold_range =
            (case threshold_range_arg of None \<Rightarrow> default_threshold_range | Some r \<Rightarrow> r);
          scores = sweep_loop u img gt threshold_range ([], [], [], []);
          (dice_scores, iou_scores, precision_scores, recall_scores) = scores;
          out1 = out\<lparr>drawn := drawn out @
                   [Figure,
                    Plot ''Dice'' threshold_range dice_scores,
                    Plot ''IoU'' threshold_range iou_scores,
                    Plot ''Precision'' threshold_range precision_scores,
                    Plot ''Recall'' threshold_range recall_scores]\<rparr>
      in case np_argmax dice_scores of
           Inl e \<Rightarrow> (Inl e, out1)
         | Inr k \<Rightarrow>
             (case getitem threshold_range k of
                Inl e \<Rightarrow> (Inl e, out1)
              | Inr optimal_threshold \<Rightarrow>
                  (let out2 = out1\<lparr>drawn := drawn out1 @
                          [AxVLine optimal_threshold,
                           Text (optimal_threshold - 25 / 100) 0 optimal_threshold,
                           XLabel ''Threshold'',
                           YLabel ''Score'',
                           Title (''Model performance for '' @ name),
                           Legend,
                           Show]\<rparr>
                   in if print_max
                      then (case print_maxima dice_scores iou_scores threshold_range out2 of
                              Inl e \<Rightarrow> (Inl e, out2)
                            | Inr out3 \<Rightarrow> (Inr scores, out3))
                      else (Inr scores, out2))))"

subsection \<open>Styling and plot\_performance\<close>

text \<open>
  The module constants. \<open>COLORMAP_DARK\<close> applies \<open>utils.invert_color\<close>, which is not
  among the sources and is a parameter here; with \<open>DARK_MODE = False\<close> it is not used.
\<close>

definition COLORMAP_LIGHT :: "string list" where
  "COLORMAP_LIGHT =
     [''#F72585'', ''#7209B7'', ''#4361EE'', ''#4CC9F0'', ''#3A0CA3'',
      ''#FF0000'', ''#F0A500'', ''#FFD700'', ''#FF7A00'', ''#FF4D00'']"

definition COLORMAP_DARK :: "(string \<Rightarrow> string) \<Rightarrow> string list" where
  "COLORMAP_DARK invert_color = map invert_color COLORMAP_LIGHT"

definition DARK_MODE :: bool where
  "DARK_MODE = False"

definition COLORMAP :: "(string \<Rightarrow> string) \<Rightarrow> string list" where
  "COLORMAP invert_color = (if DARK_MODE then COLORMAP_DARK invert_color else COLORMAP_LIGHT)"

text \<open>
  The global settings of the plotting library that the styling touches: the colour
  cycle, which \<open>sns.set_palette\<close> overwrites, and the background colour. A style sheet
  is a function on the settings; \<open>plt.style.context(sheet)\<close> saves the settings on
  entry, applies the sheet, and puts the saved settings back on exit, also when the
  body raises. \<open>contextlib.nullcontext()\<close> does nothing on entry and on exit.
\<close>

record rc_params =
  prop_cycle :: "string list"
  facecolor :: string

definition set_palette :: "string list \<Rightarrow> rc_params \<Rightarrow> rc_params" where
  "set_palette palette rc = rc\<lparr>prop_cycle := palette\<rparr>"

datatype style_context = StyleContext "rc_params \<Rightarrow> rc_params" | NullContext

fun context_enter :: "style_context \<Rightarrow> rc_params \<Rightarrow> rc_params option \<times> rc_params" where
  "context_enter (StyleContext sheet) rc = (Some rc, sheet rc)"
| "context_enter NullContext rc = (None, rc)"

fun context_exit :: "rc_params option \<Rightarrow> rc_params \<Rightarrow> rc_params" where
  "context_exit (Some saved) rc = saved"
| "context_exit None rc = rc"

text \<open>
  \<open>get_style_context\<close>. The globals \<open>DARK_MODE\<close> and \<open>COLORMAP\<close> it reads are the
  arguments \<open>dark_mode\<close> and \<open>colormap\<close>, and \<open>dark_background\<close> is the style sheet of
  that name.
\<close>

definition get_style_context ::
  "bool \<Rightarrow> string list \<Rightarrow> (rc_params \<Rightarrow> rc_params) \<Rightarrow> rc_params \<Rightarrow> style_context \<times> rc_params"
where
  "get_style_context dark_mode colormap dark_background rc =
     (let rc' = set_palette colormap rc in
      if dark_mode then (StyleContext dark_background, rc') else (NullContext, rc'))"

text \<open>
  The collaborators of \<open>plot_performance\<close>: \<open>utils.dataset_matching_stats_to_df\<close>,
  which turns the records into a table, and \<open>sns.lineplot\<close>, called with the table, the
  column of the x axis and the column to draw. Either may raise. The figure records the
  settings it was created under and the curves drawn on its two axes.
\<close>

record ('stats, 'df, 'curve) collaborators =
  dataset_matching_stats_to_df :: "'stats \<Rightarrow> error + 'df"
  lineplot :: "'df \<times> string \<times> string \<Rightarrow> error + 'curve"
  dark_background :: "rc_params \<Rightarrow> rc_params"

record 'curve figure =
  suptitle :: string
  fig_cycle :: "string list"
  fig_facecolor :: string
  xlabel :: string
  ax1_curves :: "'curve list"
  ax2_curves :: "'curve list"

text \<open>A loop \<^verbatim>\<open>for m in ...: sns.lineplot(data=stats, x="thresh", y=m, ...)\<close>.\<close>

fun lineplots ::
  "('df \<times> string \<times> string \<Rightarrow> error + 'curve) \<Rightarrow> 'df \<Rightarrow> string list \<Rightarrow> error + 'curve list"
where
  "lineplots plot df [] = Inr []"
| "lineplots plot df (m # ms) =
     (case plot (df, ''thresh'', m) of
        Inl e \<Rightarrow> Inl e
      | Inr c \<Rightarrow> (case lineplots plot df ms of Inl e \<Rightarrow> Inl e | Inr cs \<Rightarrow> Inr (c # cs)))"

definition default_stats_list :: "string list" where
  "default_stats_list =
     [''precision'', ''recall'', ''accuracy'', ''f1'', ''mean_true_score'',
      ''mean_matched_score'', ''panoptic_quality'']"

text \<open>The body of the \<^verbatim>\<open>with\<close> block of \<open>plot_performance\<close>.\<close>

definition plot_performance_body ::
  "('stats, 'df, 'curve) collaborators \<Rightarrow> string list \<Rightarrow> 'stats \<Rightarrow> string \<Rightarrow> string \<Rightarrow>
   string list \<Rightarrow> rc_params \<Rightarrow> (error + 'curve figure) \<times> rc_params"
where
  "plot_performance_body lib colormap stats name metric stats_list rc =
     (let rc' = set_palette colormap rc;
          result =
            (case dataset_matching_stats_to_df lib stats of
               Inl e \<Rightarrow> Inl e
             | Inr df \<Rightarrow>
                 (case lineplots (lineplot lib) df stats_list of
                    Inl e \<Rightarrow> Inl e
                  | Inr curves1 \<Rightarrow>
                      (case lineplots (lineplot lib) df [''fp'', ''tp'', ''fn''] of
                         Inl e \<Rightarrow> Inl e
                       | Inr curves2 \<Rightarrow>
                           Inr \<lparr>suptitle = name,
                                fig_cycle = prop_cycle rc',
                                fig_facecolor = facecolor rc',
                                xlabel = metric @ '' threshold $'' @ [CHR 0x5C] @ ''tau$'',
                                ax1_curves = curves1,
                                ax2_curves = curves2\<rparr>)))
      in (result, rc'))"

text \<open>
  \<open>plot_performance\<close>: \<^verbatim>\<open>with get_style_context(): ...\<close>. The argument \<open>taus\<close> is the
  threshold sequence; the result is the exception raised or the figure returned,
  together with the library settings the call leaves behind.
\<close>

definition plot_performance ::
  "bool \<Rightarrow> string list \<Rightarrow> ('stats, 'df, 'curve) collaborators \<Rightarrow> rat list \<Rightarrow> 'stats \<Rightarrow>
   string \<Rightarrow> string \<Rightarrow> string list \<Rightarrow> rc_params \<Rightarrow> (error + 'curve figure) \<times> rc_params"
where
  "plot_performance dark_mode colormap lib taus stats name metric stats_list rc =
     (let (ctx, rc1) = get_style_context dark_mode colormap (dark_background lib) rc;
          (saved, rc2) = context_enter ctx rc1;
          (result, rc3) = plot_performance_body lib colormap stats name metric stats_list rc2
      in (result, context_exit saved rc3))"

section \<open>Properties of the converter\<close>

subsection \<open>What the two loops compute\<close>


lemma convert_slices_None:
  "convert_slices dtype None i sl j (a, n) = Inr (a @ map (astype dtype) sl, n)"
  by (induction sl arbitrary: j a) simp_all

lemma convert_slices_Some:
  "i < length ns \<Longrightarrow>
   convert_slices dtype (Some ns) i sl j (a, n) =
     Inr (a @ map (astype dtype) sl,
          map_option (\<lambda>l. l @ map (\<lambda>k. slice_name (ns ! i) (j + k)) [0..<length sl]) n)"
proof (induction sl arbitrary: j a n)
  case Nil
  then show ?case by (cases n) simp_all
next
  case (Cons s sl)
  then show ?case
    by (cases n) (simp_all add: map_upt_Suc del: upt_Suc)
qed

lemma convert_slices_error:
  "\<not> i < length ns \<Longrightarrow> sl \<noteq> [] \<Longrightarrow>
   convert_slices dtype (Some ns) i sl j acc = Inl IndexError"
  by (cases sl; cases acc) simp_all

lemma convert_volumes_None:
  "convert_volumes dtype None vs i (a, n) =
     Inr (a @ concat (map (map (astype dtype)) vs), n)"
  by (induction vs arbitrary: i a) (simp_all add: convert_slices_None)

lemma convert_volumes_Some:
  "i + length vs \<le> length ns \<Longrightarrow>
   convert_volumes dtype (Some ns) vs i (a, n) =
     Inr (a @ concat (map (map (astype dtype)) vs),
          map_option (\<lambda>l. l @ names_of ns i vs) n)"
proof (induction vs arbitrary: i a n)
  case Nil
  then show ?case by (cases n) (simp_all add: names_of_def)
next
  case (Cons v vs)
  then have "i < length ns" and "Suc i + length vs \<le> length ns" by simp_all
  then show ?case
    using Cons.IH [of "Suc i"]
    by (cases n) (simp_all add: convert_slices_Some names_of_def)
qed



lemma convert_slices_shape:
  "convert_slices dtype names i sl j (a, n) = Inr (a', n') \<Longrightarrow>
   (n' = None) = (n = None) \<and>
   (names = None \<longrightarrow> n' = n) \<and>
   (\<forall>l l'. names \<noteq> None \<longrightarrow> n = Some l \<longrightarrow> n' = Some l' \<longrightarrow>
      length l' + length a = length l + length a')"
proof (induction sl arbitrary: j a n)
  case Nil
  then show ?case by auto
next
  case (Cons s sl)
  show ?case
  proof (cases names)
    case None
    with Cons.prems show ?thesis by (simp add: convert_slices_None)
  next
    case (Some ns)
    with Cons.prems have i: "i < length ns"
      by (simp split: if_splits)
    with Cons.prems Some show ?thesis
      by (cases n) (auto simp: convert_slices_Some)
  qed
qed

lemma convert_slices_Inl:
  assumes r: "convert_slices dtype names i sl j acc = Inl e"
  shows "names \<noteq> None \<and> e = IndexError"
proof (cases names)
  case None
  with r show ?thesis
    by (cases acc) (simp add: convert_slices_None)
next
  case (Some ns)
  show ?thesis
  proof (cases "i < length ns")
    case True
    with r Some show ?thesis by (cases acc) (simp add: convert_slices_Some)
  next
    case False
    with r Some show ?thesis
      by (cases sl; cases acc) auto
  qed
qed

lemma convert_volumes_Inl:
  "convert_volumes dtype names vs i acc = Inl e \<Longrightarrow> names \<noteq> None \<and> e = IndexError"
proof (induction vs arbitrary: i acc)
  case Nil
  then show ?case by simp
next
  case (Cons v vs)
  then show ?case
    by (auto split: sum.splits dest: convert_slices_Inl)
qed

lemma convert_volumes_shape:
  "convert_volumes dtype names vs i (a, n) = Inr (a', n') \<Longrightarrow>
   (n' = None) = (n = None) \<and>
   (\<forall>l l'. names \<noteq> None \<longrightarrow> n = Some l \<longrightarrow> n' = Some l' \<longrightarrow>
      length l' + length a = length l + length a')"
proof (induction vs arbitrary: i a n)
  case Nil
  then show ?case by auto
next
  case (Cons v vs)
  from Cons.prems obtain a1 n1 where
    s: "convert_slices dtype names i v 0 (a, n) = Inr (a1, n1)" and
    r: "convert_volumes dtype names vs (Suc i) (a1, n1) = Inr (a', n')"
    by (auto split: sum.splits)
  note S = convert_slices_shape [OF s] and R = Cons.IH [OF r]
  show ?case
  proof (intro conjI allI impI)
    show "(n' = None) = (n = None)" using S R by simp
  next
    fix l l' assume nn: "names \<noteq> None" and l: "n = Some l" and l': "n' = Some l'"
    from S l obtain l1 where l1: "n1 = Some l1" by (cases n1) auto
    from S nn l l1 have "length l1 + length a = length l + length a1" by blast
    moreover from R nn l1 l' have "length l' + length a1 = length l1 + length a'" by blast
    ultimately show "length l' + length a = length l + length a'" by arith
  qed
qed

subsection \<open>Where each output slice comes from\<close>

lemma names_of_origins:
  "names_of ns i vs = map (\<lambda>(k, j). slice_name (ns ! k) j) (slice_origins i vs)"
proof (induction vs arbitrary: i)
  case Nil
  show ?case by (simp add: names_of_def)
next
  case (Cons v vs)
  have "names_of ns i (v # vs) = map (slice_name (ns ! i)) [0..<length v] @ names_of ns (Suc i) vs"
    by (simp add: names_of_def)
  then show ?case
    by (simp add: Cons.IH comp_def)
qed

lemma slice_origins_bounds:
  "(k, j) \<in> set (slice_origins i vs) \<Longrightarrow>
   i \<le> k \<and> k < i + length vs \<and> j < length (vs ! (k - i))"
proof (induction vs arbitrary: i)
  case Nil
  then show ?case by simp
next
  case (Cons v vs)
  from Cons.prems consider
    (here) "k = i" "j < length v" | (later) "(k, j) \<in> set (slice_origins (Suc i) vs)"
    by auto
  then show ?case
  proof cases
    case here
    then show ?thesis by simp
  next
    case later
    from Cons.IH [OF later] have b: "Suc i \<le> k" "k < Suc i + length vs"
      "j < length (vs ! (k - Suc i))" by simp_all
    from b(1) have "(v # vs) ! (k - i) = vs ! (k - Suc i)"
      by (metis Suc_diff_Suc Suc_le_lessD nth_Cons_Suc)
    with b show ?thesis by simp
  qed
qed

lemma concat_origins:
  "concat (map (map f) vs) = map (\<lambda>(k, j). f (vs ! (k - i) ! j)) (slice_origins i vs)"
proof (induction vs arbitrary: i)
  case Nil
  show ?case by simp
next
  case (Cons v vs)
  have "map (\<lambda>j. f (v ! j)) [0..<length v] = map f (map ((!) v) [0..<length v])"
    by (simp add: comp_def)
  then have head: "map (\<lambda>(k, j). f ((v # vs) ! (k - i) ! j)) (map (Pair i) [0..<length v]) = map f v"
    by (simp add: comp_def map_nth)
  have tail: "map (\<lambda>(k, j). f ((v # vs) ! (k - i) ! j)) (slice_origins (Suc i) vs) =
              map (\<lambda>(k, j). f (vs ! (k - Suc i) ! j)) (slice_origins (Suc i) vs)"
  proof (rule map_cong [OF refl])
    fix p assume p: "p \<in> set (slice_origins (Suc i) vs)"
    obtain k j where kj: "p = (k, j)" by (cases p)
    with p have "Suc i \<le> k" using slice_origins_bounds [of k j "Suc i" vs] by simp
    then have "(v # vs) ! (k - i) = vs ! (k - Suc i)"
      by (metis Suc_diff_Suc Suc_le_lessD nth_Cons_Suc)
    with kj show "(case p of (k, j) \<Rightarrow> f ((v # vs) ! (k - i) ! j)) =
                  (case p of (k, j) \<Rightarrow> f (vs ! (k - Suc i) ! j))" by simp
  qed
  have "map (\<lambda>(k, j). f ((v # vs) ! (k - i) ! j)) (slice_origins i (v # vs)) =
        map (\<lambda>(k, j). f ((v # vs) ! (k - i) ! j)) (map (Pair i) [0..<length v]) @
        map (\<lambda>(k, j). f ((v # vs) ! (k - i) ! j)) (slice_origins (Suc i) vs)"
    by (simp only: slice_origins.simps map_append)
  also have "\<dots> = map f v @ concat (map (map f) vs)"
    by (simp only: head tail Cons.IH [of "Suc i", symmetric])
  finally show ?case by simp
qed

lemma slice_origins_shape:
  "map length xs = map length ys \<Longrightarrow> slice_origins i xs = slice_origins i ys"
proof (induction xs arbitrary: ys i)
  case Nil
  then show ?case by simp
next
  case (Cons x xs)
  then obtain y ys' where "ys = y # ys'" "length x = length y" "map length xs = map length ys'"
    by (cases ys) auto
  with Cons.IH show ?case by simp
qed

lemma convert_2d_Some:
  assumes "length images_array \<le> length ns"
  shows "convert_2d dtype images_array (Some ns) =
           Inr (map (\<lambda>(k, j). astype dtype (images_array ! k ! j)) (slice_origins 0 images_array),
                Some (map (\<lambda>(k, j). slice_name (ns ! k) j) (slice_origins 0 images_array)))"
  using assms concat_origins [of "astype dtype" images_array 0]
  by (simp add: convert_2d_def convert_volumes_Some names_of_origins)

subsection \<open>Claims about convert\_2d\<close>

text \<open>
  C10. For every input, the names component returned by \<open>convert_2d\<close> is \<open>None\<close>
  if and only if no source identifier sequence was given, and when identifiers are
  given the returned names list has exactly the length of the returned list of 2-D
  images, whatever the slice counts of the volumes are. The call returns for every
  input without identifiers; with identifiers its only failure is the IndexError of
  \<open>images_names[i]\<close>.
\<close>

theorem convert_2d_names_shape:
  "(case convert_2d dtype images_array images_names of
      Inl e \<Rightarrow> images_names \<noteq> None \<and> e = IndexError
    | Inr (images_2d, images_names_2d) \<Rightarrow>
        (images_names_2d = None) = (images_names = None) \<and>
        (\<forall>l. images_names_2d = Some l \<longrightarrow> length l = length images_2d))"
proof (cases "convert_2d dtype images_array images_names")
  case (Inl e)
  then show ?thesis
    by (auto simp: convert_2d_def dest: convert_volumes_Inl)
next
  case (Inr r)
  obtain a' n' where r: "r = (a', n')" by (cases r)
  show ?thesis
  proof (cases images_names)
    case None
    with Inr r show ?thesis
      by (auto simp: convert_2d_def convert_volumes_None)
  next
    case (Some ns)
    with Inr r have
      "convert_volumes dtype (Some ns) images_array 0 ([], Some []) = Inr (a', n')"
      by (simp add: convert_2d_def)
    from convert_volumes_shape [OF this] Inr r Some show ?thesis
      by auto
  qed
qed

theorem convert_2d_names_shape_witness:
  "convert_2d int [[[[1, 2]], [[3, 4]]], [[[5, 6]]]] (Some [''/d/a.tif'', ''/d/b.tif'']) =
     Inr ([[[1, 2]], [[3, 4]], [[5, 6]]], Some [''a_0.tif'', ''a_1.tif'', ''b_0.tif'']) \<and>
   length [''a_0.tif'', ''a_1.tif'', ''b_0.tif''] = length [[[1::int, 2]], [[3, 4]], [[5, 6]]]"
  using convert_2d_names_shape
    [where dtype = int and images_array = "[[[[1, 2]], [[3, 4]]], [[[5, 6]]]]"
       and images_names = "Some [''/d/a.tif'', ''/d/b.tif'']"]
  by (simp add: convert_2d_def astype_def slice_name_def path_stem_def path_name_def
      str_nat.simps digit_char_def)

text \<open>
  C3. Converting one volume \<open>V\<close> alone (without identifiers, or with at least one)
  returns exactly as many 2-D arrays as \<open>V\<close> has slices along axis 0, and the
  \<open>i\<close>-th of them is \<open>V[i]\<close> with the cast applied to each element, in slice
  order.
\<close>

theorem convert_2d_single_volume:
  assumes "images_names \<noteq> Some []"
  shows "\<exists>images_2d names_2d.
           convert_2d dtype [V] images_names = Inr (images_2d, names_2d) \<and>
           length images_2d = length V \<and>
           (\<forall>i<length V. images_2d ! i = map (map dtype) (V ! i))"
proof (cases images_names)
  case None
  then show ?thesis
    by (simp add: convert_2d_def convert_volumes_None astype_def del: convert_volumes.simps)
next
  case (Some ns)
  with assms have le: "0 + length [V] \<le> length ns"
    by (cases ns) simp_all
  from Some show ?thesis
    by (simp add: convert_2d_def convert_volumes_Some [OF le] astype_def
        del: convert_volumes.simps)
qed

theorem convert_2d_single_volume_witness:
  "convert_2d int [[[[1, 2], [3, 4]], [[5, 6], [7, 8]]]] None =
     Inr ([[[1, 2], [3, 4]], [[5, 6], [7, 8]]], None)"
  using convert_2d_single_volume
    [where dtype = int and V = "[[[1, 2], [3, 4]], [[5, 6], [7, 8]]]" and images_names = None]
  by (simp add: convert_2d_def astype_def)

text \<open>
  C4. For image and label volume sequences with the same number of volumes and,
  volume for volume, the same number of slices, each with one source identifier per
  volume (as the script passes them), both conversions return, the four returned
  sequences have one length, and at every position \<open>k\<close> the image slice, the label
  slice and both identifiers come from the same volume \<open>i\<close> and the same slice
  index \<open>j\<close>.
\<close>

theorem convert_2d_alignment:
  assumes count: "length X = length Y"
    and slices: "\<forall>i<length X. length (X ! i) = length (Y ! i)"
    and xn: "length X_paths = length X"
    and yn: "length Y_paths = length Y"
  shows "\<exists>X_2d X_paths_2d Y_2d Y_paths_2d.
           convert_2d dx X (Some X_paths) = Inr (X_2d, Some X_paths_2d) \<and>
           convert_2d dy Y (Some Y_paths) = Inr (Y_2d, Some Y_paths_2d) \<and>
           length X_2d = length Y_2d \<and>
           length X_paths_2d = length X_2d \<and>
           length Y_paths_2d = length Y_2d \<and>
           (\<forall>k<length X_2d. \<exists>i j. i < length X \<and> j < length (X ! i) \<and>
              X_2d ! k = astype dx (X ! i ! j) \<and>
              Y_2d ! k = astype dy (Y ! i ! j) \<and>
              X_paths_2d ! k = path_stem (X_paths ! i) @ ''_'' @ str_nat j @ ''.tif'' \<and>
              Y_paths_2d ! k = path_stem (Y_paths ! i) @ ''_'' @ str_nat j @ ''.tif'')"
proof -
  define org where "org = slice_origins 0 X"
  have "map length X = map length Y"
    using count slices by (simp add: list_eq_iff_nth_eq)
  then have orgY: "slice_origins 0 Y = org"
    unfolding org_def by (rule slice_origins_shape [symmetric])
  have cx: "convert_2d dx X (Some X_paths) =
      Inr (map (\<lambda>(k, j). astype dx (X ! k ! j)) org, Some (map (\<lambda>(k, j). slice_name (X_paths ! k) j) org))"
    using xn by (simp add: convert_2d_Some org_def)
  have cy: "convert_2d dy Y (Some Y_paths) =
      Inr (map (\<lambda>(k, j). astype dy (Y ! k ! j)) org, Some (map (\<lambda>(k, j). slice_name (Y_paths ! k) j) org))"
    using yn by (simp add: convert_2d_Some orgY)
  have each: "\<exists>i j. i < length X \<and> j < length (X ! i) \<and>
        map (\<lambda>(k, j). astype dx (X ! k ! j)) org ! k = astype dx (X ! i ! j) \<and>
        map (\<lambda>(k, j). astype dy (Y ! k ! j)) org ! k = astype dy (Y ! i ! j) \<and>
        map (\<lambda>(k, j). slice_name (X_paths ! k) j) org ! k =
          path_stem (X_paths ! i) @ ''_'' @ str_nat j @ ''.tif'' \<and>
        map (\<lambda>(k, j). slice_name (Y_paths ! k) j) org ! k =
          path_stem (Y_paths ! i) @ ''_'' @ str_nat j @ ''.tif''"
    if k: "k < length org" for k
  proof -
    obtain i j where ij: "org ! k = (i, j)" by (cases "org ! k")
    with k have "(i, j) \<in> set (slice_origins 0 X)"
      unfolding org_def by (metis nth_mem)
    from slice_origins_bounds [OF this] have "i < length X" "j < length (X ! i)" by simp_all
    with k ij show ?thesis
      by (intro exI [of _ i] exI [of _ j]) (simp add: slice_name_def)
  qed
  show ?thesis
    unfolding cx cy using each by simp
qed

theorem convert_2d_alignment_witness:
  "convert_2d int [[[[1]], [[2]]], [[[3]]]] (Some [''/d/a.tif'', ''/d/b.tif'']) =
     Inr ([[[1]], [[2]], [[3]]], Some [''a_0.tif'', ''a_1.tif'', ''b_0.tif'']) \<and>
   convert_2d int [[[[0]], [[1]]], [[[1]]]] (Some [''/d/labels/a.tif'', ''/d/labels/b.tif'']) =
     Inr ([[[0]], [[1]], [[1]]], Some [''a_0.tif'', ''a_1.tif'', ''b_0.tif''])"
proof -
  let ?X = "[[[[1]], [[2]]], [[[3]]]] :: nat volume list"
  let ?Y = "[[[[0]], [[1]]], [[[1]]]] :: nat volume list"
  have count: "length ?X = length ?Y" by simp
  have slices: "\<forall>i<length ?X. length (?X ! i) = length (?Y ! i)"
    by (auto simp: less_Suc_eq)
  have xn: "length [''/d/a.tif'', ''/d/b.tif''] = length ?X" by simp
  have yn: "length [''/d/labels/a.tif'', ''/d/labels/b.tif''] = length ?Y" by simp
  from convert_2d_alignment [OF count slices xn yn, where dx = int and dy = int]
  show ?thesis
    by (simp add: convert_2d_def astype_def slice_name_def path_stem_def path_name_def
        str_nat.simps digit_char_def)
qed

text \<open>
  C6, as stated: every identifier has exactly the form \<open>{source_stem}_{slice_index}\<close>.
  The converter appends \<open>.tif\<close>: for the source \<open>/data/vol.tif\<close> the identifier of
  slice 0 is \<open>vol_0.tif\<close>, not \<open>vol_0\<close>.
\<close>

theorem convert_2d_name_form_counterexample:
  "convert_2d int [[[[1]]]] (Some [''/data/vol.tif'']) = Inr ([[[1]]], Some [''vol_0.tif'']) \<and>
   ''vol_0.tif'' \<noteq> path_stem ''/data/vol.tif'' @ ''_'' @ str_nat 0"
  by (simp add: convert_2d_def astype_def slice_name_def path_stem_def path_name_def
      str_nat.simps digit_char_def)

text \<open>
  C6, amended. With a source identifier for every volume the converter returns, and
  the identifier of slice \<open>j\<close> of volume \<open>i\<close> is the stem of \<open>images_names[i]\<close>,
  an underscore, the decimal slice index and the suffix \<open>.tif\<close>; the identifiers are
  in the order of the loops.
\<close>

theorem convert_2d_name_form:
  assumes "length images_array \<le> length images_names"
  shows "\<exists>images_2d.
           convert_2d dtype images_array (Some images_names) =
             Inr (images_2d,
                  Some (concat (map (\<lambda>(i, img).
                          map (\<lambda>j. path_stem (images_names ! i) @ ''_'' @ str_nat j @ ''.tif'')
                            [0..<length img])
                        (enumerate 0 images_array))))"
  using assms
  by (simp add: convert_2d_def convert_volumes_Some names_of_def slice_name_def [abs_def])

theorem convert_2d_name_form_witness:
  "convert_2d int [[[[1]], [[2]]], [[[3]]]] (Some [''/d/a.tif'', ''/d/b.tif'']) =
     Inr ([[[1]], [[2]], [[3]]], Some [''a_0.tif'', ''a_1.tif'', ''b_0.tif''])"
  using convert_2d_name_form
    [where dtype = int and images_array = "[[[[1]], [[2]]], [[[3]]]]"
       and images_names = "[''/d/a.tif'', ''/d/b.tif'']"]
  by (simp add: convert_2d_def astype_def slice_name_def path_stem_def path_name_def
      str_nat.simps digit_char_def)

section \<open>Properties of the split\<close>












section \<open>Properties of the metric sweep\<close>

subsection \<open>The numpy functions and the loop\<close>

lemma argmax_from_spec:
  assumes "best < length pre" "pre ! best = bv"
    and "\<forall>j<length pre. pre ! j \<le> bv" "\<forall>j<best. pre ! j < bv"
  shows "argmax_from xs (length pre) best bv < length (pre @ xs) \<and>
         (\<forall>j<length (pre @ xs). (pre @ xs) ! j \<le> (pre @ xs) ! argmax_from xs (length pre) best bv) \<and>
         (\<forall>j<argmax_from xs (length pre) best bv.
            (pre @ xs) ! j < (pre @ xs) ! argmax_from xs (length pre) best bv)"
  using assms
proof (induction xs arbitrary: pre best bv)
  case Nil
  then show ?case by simp
next
  case (Cons x xs)
  have app: "pre @ x # xs = (pre @ [x]) @ xs" by simp
  show ?case
  proof (cases "bv < x")
    case True
    have a1: "length pre < length (pre @ [x])" by simp
    have a2: "(pre @ [x]) ! length pre = x" by simp
    have a3: "\<forall>j<length (pre @ [x]). (pre @ [x]) ! j \<le> x"
      using Cons.prems(3) True by (auto simp: nth_append less_Suc_eq)
    have a4: "\<forall>j<length pre. (pre @ [x]) ! j < x"
      using Cons.prems(3) True by (auto simp: nth_append)
    have step: "argmax_from (x # xs) (length pre) best bv =
                argmax_from xs (length (pre @ [x])) (length pre) x"
      using True by simp
    show ?thesis
      unfolding step app by (rule Cons.IH [OF a1 a2 a3 a4])
  next
    case False
    have a1: "best < length (pre @ [x])" using Cons.prems(1) by simp
    have a2: "(pre @ [x]) ! best = bv" using Cons.prems(1,2) by (simp add: nth_append)
    have a3: "\<forall>j<length (pre @ [x]). (pre @ [x]) ! j \<le> bv"
      using Cons.prems(3) False by (auto simp: nth_append less_Suc_eq)
    have a4: "\<forall>j<best. (pre @ [x]) ! j < bv"
      using Cons.prems(1,4) by (auto simp: nth_append)
    have step: "argmax_from (x # xs) (length pre) best bv =
                argmax_from xs (length (pre @ [x])) best bv"
      using False by simp
    show ?thesis
      unfolding step app by (rule Cons.IH [OF a1 a2 a3 a4])
  qed
qed

lemma np_argmax_spec:
  assumes "xs \<noteq> []"
  shows "\<exists>k. np_argmax xs = Inr k \<and> k < length xs \<and> xs ! k = Max (set xs) \<and>
             (\<forall>j<k. xs ! j < xs ! k)"
proof -
  from assms obtain x rest where xs: "xs = x # rest" by (cases xs) auto
  define k where "k = argmax_from rest 1 0 x"
  have "argmax_from rest (length [x]) 0 x < length ([x] @ rest) \<and>
        (\<forall>j<length ([x] @ rest). ([x] @ rest) ! j \<le> ([x] @ rest) ! argmax_from rest (length [x]) 0 x) \<and>
        (\<forall>j<argmax_from rest (length [x]) 0 x.
           ([x] @ rest) ! j < ([x] @ rest) ! argmax_from rest (length [x]) 0 x)"
    by (rule argmax_from_spec) simp_all
  then have k: "k < length xs" and le: "\<forall>j<length xs. xs ! j \<le> xs ! k"
    and first: "\<forall>j<k. xs ! j < xs ! k"
    by (simp_all add: xs k_def)
  have "Max (set xs) = xs ! k"
  proof (rule Max_eqI)
    show "finite (set xs)" by simp
    show "xs ! k \<in> set xs" using k by simp
    fix y assume "y \<in> set xs"
    then obtain j where "j < length xs" "xs ! j = y" by (auto simp: in_set_conv_nth)
    with le show "y \<le> xs ! k" by auto
  qed
  moreover have "np_argmax xs = Inr k" by (simp add: np_argmax_def xs k_def)
  ultimately show ?thesis using k first by auto
qed

lemma np_max_spec:
  assumes "xs \<noteq> []"
  shows "np_max xs = Inr (Max (set xs))"
proof -
  from assms obtain x rest where xs: "xs = x # rest" by (cases xs) auto
  have "fold max rest x = Max (set (x # rest))" by (rule Max.set_eq_fold [symmetric])
  then show ?thesis by (simp add: np_max_def xs)
qed

lemma sweep_loop_eq:
  "sweep_loop u img gt ths (ds, is, ps, rs) =
     (ds @ map (\<lambda>t. dice_coeff u gt (binarize img t)) ths,
      is @ map (\<lambda>t. intersection_over_union u gt (binarize img t)) ths,
      ps @ map (\<lambda>t. precision u gt (binarize img t)) ths,
      rs @ map (\<lambda>t. recall u gt (binarize img t)) ths)"
  by (induction ths arbitrary: ds "is" ps rs) (simp_all add: Let_def)

lemma max_at_spec:
  assumes "scores \<noteq> []" "length scores = length ths"
  shows "\<exists>k. np_argmax scores = Inr k \<and> max_at scores ths = Inr (Max (set scores), ths ! k)"
proof -
  from np_argmax_spec [OF assms(1)] obtain k where
    "np_argmax scores = Inr k" "k < length scores" by blast
  with assms show ?thesis
    by (simp add: max_at_def np_max_spec getitem_def)
qed

subsection \<open>What a sweep over a non-empty range returns\<close>

lemma sweep_run:
  assumes range: "threshold_range =
                    (case threshold_range_arg of None \<Rightarrow> default_threshold_range | Some r \<Rightarrow> r)"
    and nonempty: "threshold_range \<noteq> []"
    and ds: "ds = map (\<lambda>t. dice_coeff u gt (binarize img t)) threshold_range"
    and ios: "ios = map (\<lambda>t. intersection_over_union u gt (binarize img t)) threshold_range"
    and ps: "ps = map (\<lambda>t. precision u gt (binarize img t)) threshold_range"
    and rs: "rs = map (\<lambda>t. recall u gt (binarize img t)) threshold_range"
  shows "\<exists>k k'. k < length threshold_range \<and> ds ! k = Max (set ds) \<and> (\<forall>j<k. ds ! j < ds ! k) \<and>
           plot_model_performance_semantic u img gt name threshold_range_arg print_max out =
             (Inr (ds, ios, ps, rs),
              \<lparr>drawn = drawn out @
                 [Figure,
                  Plot ''Dice'' threshold_range ds,
                  Plot ''IoU'' threshold_range ios,
                  Plot ''Precision'' threshold_range ps,
                  Plot ''Recall'' threshold_range rs,
                  AxVLine (threshold_range ! k),
                  Text (threshold_range ! k - 25 / 100) 0 (threshold_range ! k),
                  XLabel ''Threshold'',
                  YLabel ''Score'',
                  Title (''Model performance for '' @ name),
                  Legend,
                  Show],
               printed = printed out @
                 (if print_max
                  then [MaxDice (Max (set ds)) (threshold_range ! k),
                        MaxIoU (Max (set ios)) (threshold_range ! k')]
                  else [])\<rparr>)"
proof -
  have loop: "sweep_loop u img gt threshold_range ([], [], [], []) = (ds, ios, ps, rs)"
    by (simp add: sweep_loop_eq ds ios ps rs)
  have ds_ne: "ds \<noteq> []" and ds_len: "length ds = length threshold_range"
    using nonempty by (simp_all add: ds)
  have ios_ne: "ios \<noteq> []" and ios_len: "length ios = length threshold_range"
    using nonempty by (simp_all add: ios)
  from np_argmax_spec [OF ds_ne] obtain k where
    k: "np_argmax ds = Inr k" "k < length ds" "ds ! k = Max (set ds)" "\<forall>j<k. ds ! j < ds ! k"
    by blast
  from k(2) ds_len have get: "getitem threshold_range k = Inr (threshold_range ! k)"
    by (simp add: getitem_def)
  from max_at_spec [OF ds_ne ds_len] k(1)
  have dmax: "max_at ds threshold_range = Inr (Max (set ds), threshold_range ! k)"
    by simp
  from max_at_spec [OF ios_ne ios_len] obtain k' where
    imax: "max_at ios threshold_range = Inr (Max (set ios), threshold_range ! k')"
    by blast
  have "plot_model_performance_semantic u img gt name threshold_range_arg print_max out =
          (Inr (ds, ios, ps, rs),
           \<lparr>drawn = drawn out @
              [Figure,
               Plot ''Dice'' threshold_range ds,
               Plot ''IoU'' threshold_range ios,
               Plot ''Precision'' threshold_range ps,
               Plot ''Recall'' threshold_range rs,
               AxVLine (threshold_range ! k),
               Text (threshold_range ! k - 25 / 100) 0 (threshold_range ! k),
               XLabel ''Threshold'',
               YLabel ''Score'',
               Title (''Model performance for '' @ name),
               Legend,
               Show],
            printed = printed out @
              (if print_max
               then [MaxDice (Max (set ds)) (threshold_range ! k),
                     MaxIoU (Max (set ios)) (threshold_range ! k')]
               else [])\<rparr>)"
    by (cases print_max)
      (simp_all add: plot_model_performance_semantic_def range [symmetric] loop k(1) get
        print_maxima_def dmax imax Let_def)
  with k ds_len show ?thesis by auto
qed



subsection \<open>Claims about the sweep\<close>

text \<open>
  C2. For a non-empty threshold sequence (the argument, or the default range when the
  argument is \<open>None\<close>) the function returns, and the threshold it marks with the
  vertical line and the text, and prints when \<open>print_max\<close> is set, is the one at an
  index \<open>k\<close> whose Dice score is the maximum of the Dice scores of the sweep, every
  earlier score being strictly smaller: the first index that attains the maximum.
\<close>

theorem optimal_threshold_first_max_dice:
  assumes range: "threshold_range =
                    (case threshold_range_arg of None \<Rightarrow> default_threshold_range | Some r \<Rightarrow> r)"
    and nonempty: "threshold_range \<noteq> []"
  shows "\<exists>k dice_scores iou_scores precision_scores recall_scores out'.
           plot_model_performance_semantic u img gt name threshold_range_arg print_max out =
             (Inr (dice_scores, iou_scores, precision_scores, recall_scores), out') \<and>
           dice_scores = map (\<lambda>t. dice_coeff u gt (binarize img t)) threshold_range \<and>
           k < length threshold_range \<and>
           dice_scores ! k = Max (set dice_scores) \<and>
           (\<forall>j<k. dice_scores ! j < dice_scores ! k) \<and>
           drawn out' = drawn out @
             [Figure,
              Plot ''Dice'' threshold_range dice_scores,
              Plot ''IoU'' threshold_range iou_scores,
              Plot ''Precision'' threshold_range precision_scores,
              Plot ''Recall'' threshold_range recall_scores,
              AxVLine (threshold_range ! k),
              Text (threshold_range ! k - 25 / 100) 0 (threshold_range ! k),
              XLabel ''Threshold'',
              YLabel ''Score'',
              Title (''Model performance for '' @ name),
              Legend,
              Show] \<and>
           (if print_max
            then \<exists>m t. printed out' = printed out @
                   [MaxDice (Max (set dice_scores)) (threshold_range ! k), MaxIoU m t]
            else printed out' = printed out)"
proof -
  from sweep_run [OF range nonempty refl refl refl refl, where print_max = print_max
      and u = u and img = img and gt = gt and name = name and out = out]
  obtain k k' where
    k: "k < length threshold_range"
      "map (\<lambda>t. dice_coeff u gt (binarize img t)) threshold_range ! k =
         Max (set (map (\<lambda>t. dice_coeff u gt (binarize img t)) threshold_range))"
      "\<forall>j<k. map (\<lambda>t. dice_coeff u gt (binarize img t)) threshold_range ! j <
               map (\<lambda>t. dice_coeff u gt (binarize img t)) threshold_range ! k"
    and run: "plot_model_performance_semantic u img gt name threshold_range_arg print_max out =
      (Inr (map (\<lambda>t. dice_coeff u gt (binarize img t)) threshold_range,
            map (\<lambda>t. intersection_over_union u gt (binarize img t)) threshold_range,
            map (\<lambda>t. precision u gt (binarize img t)) threshold_range,
            map (\<lambda>t. recall u gt (binarize img t)) threshold_range),
       \<lparr>drawn = drawn out @
          [Figure,
           Plot ''Dice'' threshold_range
             (map (\<lambda>t. dice_coeff u gt (binarize img t)) threshold_range),
           Plot ''IoU'' threshold_range
             (map (\<lambda>t. intersection_over_union u gt (binarize img t)) threshold_range),
           Plot ''Precision'' threshold_range
             (map (\<lambda>t. precision u gt (binarize img t)) threshold_range),
           Plot ''Recall'' threshold_range
             (map (\<lambda>t. recall u gt (binarize img t)) threshold_range),
           AxVLine (threshold_range ! k),
           Text (threshold_range ! k - 25 / 100) 0 (threshold_range ! k),
           XLabel ''Threshold'',
           YLabel ''Score'',
           Title (''Model performance for '' @ name),
           Legend,
           Show],
        printed = printed out @
          (if print_max
           then [MaxDice (Max (set (map (\<lambda>t. dice_coeff u gt (binarize img t)) threshold_range)))
                   (threshold_range ! k),
                 MaxIoU
                   (Max (set (map (\<lambda>t. intersection_over_union u gt (binarize img t))
                                threshold_range)))
                   (threshold_range ! k')]
           else [])\<rparr>)"
    by blast
  show ?thesis
    unfolding run using k by (cases print_max) auto
qed

theorem optimal_threshold_first_max_dice_witness:
  "plot_model_performance_semantic
     \<lparr>dice_coeff = (\<lambda>a b. of_nat (2 * overlap a b) / of_nat (mask_size a + mask_size b)),
      intersection_over_union =
        (\<lambda>a b. of_nat (overlap a b) / of_nat (mask_size a + mask_size b - overlap a b)),
      precision = (\<lambda>a b. of_nat (overlap a b) / of_nat (mask_size b)),
      recall = (\<lambda>a b. of_nat (overlap a b) / of_nat (mask_size a))\<rparr>
     [1 / 8, 1] [0, 1] ''m'' (Some [0, 1 / 4, 1 / 2]) False \<lparr>drawn = [], printed = []\<rparr> =
   (Inr ([2 / 3, 1, 1], [1 / 2, 1, 1], [1 / 2, 1, 1], [1, 1, 1 :: rat]),
    \<lparr>drawn =
       [Figure,
        Plot ''Dice'' [0, 1 / 4, 1 / 2] [2 / 3, 1, 1],
        Plot ''IoU'' [0, 1 / 4, 1 / 2] [1 / 2, 1, 1],
        Plot ''Precision'' [0, 1 / 4, 1 / 2] [1 / 2, 1, 1],
        Plot ''Recall'' [0, 1 / 4, 1 / 2] [1, 1, 1],
        AxVLine (1 / 4),
        Text 0 0 (1 / 4),
        XLabel ''Threshold'',
        YLabel ''Score'',
        Title ''Model performance for m'',
        Legend,
        Show],
     printed = []\<rparr>)"
  (is "?call = ?result")
proof -
  have range: "[0, 1 / 4, 1 / 2 :: rat] =
                 (case Some [0, 1 / 4, 1 / 2] of None \<Rightarrow> default_threshold_range | Some r \<Rightarrow> r)"
    by simp
  have nonempty: "[0, 1 / 4, 1 / 2 :: rat] \<noteq> []" by simp
  have run: "?call = ?result"
    by (simp add: plot_model_performance_semantic_def np_argmax_def getitem_def binarize_def
        overlap_def mask_size_def Let_def)
  from optimal_threshold_first_max_dice [OF range nonempty] show ?thesis
    by - (rule run)
qed

lemma overlap_self: "overlap a a = mask_size a"
  by (induction a) (simp_all add: overlap_def mask_size_def)

lemma mask_size_binarize_pos:
  assumes "\<exists>v\<in>set img. t < v"
  shows "0 < mask_size (binarize img t)"
proof -
  from assms obtain v where "v \<in> set img" "t < v" by blast
  then have "1 \<in> set (filter (\<lambda>v. v = 1) (binarize img t))"
    by (auto simp: binarize_def intro!: image_eqI [of _ _ v])
  then show ?thesis
    unfolding mask_size_def by (metis length_pos_if_in_set)
qed

lemma ratio_one: "0 < n \<Longrightarrow> ratio n n = Some 1"
  by (simp add: ratio_def)

text \<open>
  C8, as stated: for every prediction map that equals its ground truth, a binary map
  equal to the prediction binarized by \<open>value > 0\<close>, the four scores at threshold 0
  are 1.0. For a map without a positive element both masks are empty, every
  denominator of the formulas is zero, and no score is 1.0.
\<close>

theorem sweep_scores_empty_mask_counterexample:
  "binarize [0, 0] 0 = [0, 0] \<and>
   sweep_loop spec_utils [0, 0] [0, 0] [0] ([], [], [], []) = ([None], [None], [None], [None])"
  by (simp add: binarize_def spec_utils_def spec_dice_coeff_def spec_intersection_over_union_def
      spec_precision_def spec_recall_def ratio_def overlap_def mask_size_def)

text \<open>
  C8, amended. For every prediction map with at least one element above 0 and the
  ground truth equal to the prediction binarized by \<open>value > 0\<close> (so also for a
  binary prediction map that equals its ground truth), the Dice, IoU, precision and
  recall scores that the loop of the sweep computes at threshold 0 are all 1.
\<close>

theorem sweep_scores_perfect_prediction:
  assumes positive: "\<exists>v\<in>set img. 0 < v"
    and truth: "gt = binarize img 0"
  shows "sweep_loop spec_utils img gt [0] ([], [], [], []) =
           ([Some 1], [Some 1], [Some 1], [Some 1])"
proof -
  from positive have n: "0 < mask_size gt"
    unfolding truth by (rule mask_size_binarize_pos)
  have d: "spec_dice_coeff gt gt = Some 1"
    using n by (simp add: spec_dice_coeff_def overlap_self ratio_one mult_2)
  have i: "spec_intersection_over_union gt gt = Some 1"
    using n by (simp add: spec_intersection_over_union_def overlap_self ratio_one)
  have p: "spec_precision gt gt = Some 1"
    using n by (simp add: spec_precision_def overlap_self ratio_one)
  have r: "spec_recall gt gt = Some 1"
    using n by (simp add: spec_recall_def overlap_self ratio_one)
  show ?thesis
    by (simp add: sweep_loop_eq spec_utils_def truth [symmetric] d i p r)
qed

theorem sweep_scores_perfect_prediction_witness:
  "sweep_loop spec_utils [0, 1, 1, 0] [0, 1, 1, 0] [0] ([], [], [], []) =
     ([Some 1], [Some 1], [Some 1], [Some 1])"
proof -
  have positive: "\<exists>v\<in>set [0, 1, 1, 0 :: rat]. 0 < v" by simp
  have truth: "[0, 1, 1, 0] = binarize [0, 1, 1, 0] 0" by (simp add: binarize_def)
  from sweep_scores_perfect_prediction [OF positive truth] show ?thesis .
qed

section \<open>Properties of plot\_performance\<close>


lemma plot_performance_body_snd:
  "snd (plot_performance_body lib colormap stats title metric stats_list rc) =
     set_palette colormap rc"
  by (simp add: plot_performance_body_def Let_def)

lemma plot_performance_body_fst:
  "fst (plot_performance_body lib colormap stats title metric stats_list rc) = Inr fig \<Longrightarrow>
   fig_cycle fig = colormap \<and> fig_facecolor fig = facecolor rc"
  by (auto simp: plot_performance_body_def Let_def set_palette_def split: sum.splits)

lemma plot_performance_unfold:
  "plot_performance dark_mode colormap lib taus stats title metric stats_list rc =
     (fst (plot_performance_body lib colormap stats title metric stats_list
             (if dark_mode then dark_background lib (set_palette colormap rc)
              else set_palette colormap rc)),
      set_palette colormap rc)"
proof (cases dark_mode)
  case True
  then show ?thesis
    by (simp add: plot_performance_def get_style_context_def Let_def split_beta)
next
  case False
  then show ?thesis
    by (simp add: plot_performance_def get_style_context_def Let_def split_beta
        plot_performance_body_snd set_palette_def)
qed




text \<open>
  C9, as stated: the palette and the background set for a plot call are restored to
  their previous values when the call ends. With the module's settings the palette in
  effect before the call is replaced by \<open>COLORMAP\<close> and stays replaced.
\<close>

theorem plot_performance_palette_counterexample:
  "prop_cycle (snd (plot_performance DARK_MODE (COLORMAP id)
                 \<lparr>dataset_matching_stats_to_df = Inr, lineplot = Inr, dark_background = id\<rparr>
                 [1 / 2] () ''model'' ''IoU'' default_stats_list
                 \<lparr>prop_cycle = [''#1f77b4''], facecolor = ''white''\<rparr>)) = COLORMAP_LIGHT \<and>
   COLORMAP_LIGHT \<noteq> prop_cycle \<lparr>prop_cycle = [''#1f77b4''], facecolor = ''white''\<rparr>"
  by (simp add: plot_performance_unfold set_palette_def COLORMAP_def DARK_MODE_def
      COLORMAP_LIGHT_def)

text \<open>
  C9, amended. A call of \<open>plot_performance\<close> leaves the background as it was before
  the call, in dark mode too, where the style sheet is in effect for the figure only;
  the colour palette is set to \<open>COLORMAP\<close> for the figure and stays set to it after
  the call, whatever it was before.
\<close>

theorem plot_performance_styling:
  "snd (plot_performance dark_mode colormap lib taus stats title metric stats_list rc) =
     rc\<lparr>prop_cycle := colormap\<rparr> \<and>
   (\<forall>fig. fst (plot_performance dark_mode colormap lib taus stats title metric stats_list rc) =
            Inr fig \<longrightarrow>
          fig_cycle fig = colormap \<and>
          fig_facecolor fig =
            facecolor (if dark_mode then dark_background lib (rc\<lparr>prop_cycle := colormap\<rparr>)
                       else rc))"
proof (intro conjI allI impI)
  show "snd (plot_performance dark_mode colormap lib taus stats title metric stats_list rc) =
          rc\<lparr>prop_cycle := colormap\<rparr>"
    by (simp add: plot_performance_unfold set_palette_def)
next
  fix fig
  assume "fst (plot_performance dark_mode colormap lib taus stats title metric stats_list rc) =
            Inr fig"
  then have "fst (plot_performance_body lib colormap stats title metric stats_list
                    (if dark_mode then dark_background lib (set_palette colormap rc)
                     else set_palette colormap rc)) = Inr fig"
    by (simp add: plot_performance_unfold)
  from plot_performance_body_fst [OF this]
  show "fig_cycle fig = colormap" and
    "fig_facecolor fig =
       facecolor (if dark_mode then dark_background lib (rc\<lparr>prop_cycle := colormap\<rparr>) else rc)"
    by (simp_all add: set_palette_def)
qed

theorem plot_performance_styling_witness:
  "plot_performance True COLORMAP_LIGHT
     \<lparr>dataset_matching_stats_to_df = Inr, lineplot = Inr,
      dark_background = (\<lambda>rc. rc\<lparr>prop_cycle := [''#8dd3c7''], facecolor := ''black''\<rparr>)\<rparr>
     [1 / 2] () ''model'' ''IoU'' [''f1''] \<lparr>prop_cycle = [''#1f77b4''], facecolor = ''white''\<rparr> =
   (Inr \<lparr>suptitle = ''model'', fig_cycle = COLORMAP_LIGHT, fig_facecolor = ''black'',
         xlabel = ''IoU threshold $'' @ [CHR 0x5C] @ ''tau$'',
         ax1_curves = [((), ''thresh'', ''f1'')],
         ax2_curves = [((), ''thresh'', ''fp''), ((), ''thresh'', ''tp''), ((), ''thresh'', ''fn'')]\<rparr>,
    \<lparr>prop_cycle = COLORMAP_LIGHT, facecolor = ''white''\<rparr>)"
  (is "?call = ?result")
proof -
  have run: "?call = ?result"
    by (simp add: plot_performance_unfold plot_performance_body_def set_palette_def Let_def)
  from plot_performance_styling
    [where dark_mode = True and colormap = COLORMAP_LIGHT and rc =
       "\<lparr>prop_cycle = [''#1f77b4''], facecolor = ''white''\<rparr>"]
  show ?thesis
    by - (rule run)
qed

end
